theory Spec2Isabelle
  imports Main
begin

section \<open>Domain model: internal/domain/user.go\<close>

text \<open>
  A \<open>User\<close> of the source is a struct of six fields. Strings are byte strings, as in Go
  (\<open>len\<close> counts bytes); \<open>int\<close> values are never subject to arithmetic in the code
  under study, so they are modelled as mathematical integers; a \<open>time.Time\<close> is
  modelled as an integer instant on the time line.
\<close>

record User =
  ID :: string
  Name :: string
  Email :: string
  Age :: int
  CreatedAt :: int
  UpdatedAt :: int

text \<open>
  The five sentinel error values of the source. \<open>NilDereference\<close> is not an error value
  of the source: it stands for the run-time panic raised when a method reads a field
  through a nil \<open>*User\<close>.
\<close>

datatype error =
    ErrInvalidUserName
  | ErrInvalidUserEmail
  | ErrInvalidUserAge
  | ErrNotFound
  | ErrAlreadyExists
  | NilDereference

subsection \<open>The library function \<open>strings.TrimSpace\<close>\<close>

text \<open>
  \<open>strings.TrimSpace\<close> removes the leading and the trailing runes for which
  \<open>unicode.IsSpace\<close> holds. On the UTF-8 bytes of a Go string these runes are exactly
  the following byte sequences: the six ASCII blanks, U+0085, U+00A0, U+1680,
  U+2000 to U+200A, U+2028, U+2029, U+202F, U+205F and U+3000.
\<close>

definition spaceRunes :: "string list" where
  "spaceRunes =
    [[CHR 0x09], [CHR 0x0A], [CHR 0x0B], [CHR 0x0C], [CHR 0x0D], [CHR 0x20],
     [CHR 0xC2, CHR 0x85], [CHR 0xC2, CHR 0xA0],
     [CHR 0xE1, CHR 0x9A, CHR 0x80],
     [CHR 0xE2, CHR 0x80, CHR 0x80], [CHR 0xE2, CHR 0x80, CHR 0x81],
     [CHR 0xE2, CHR 0x80, CHR 0x82], [CHR 0xE2, CHR 0x80, CHR 0x83],
     [CHR 0xE2, CHR 0x80, CHR 0x84], [CHR 0xE2, CHR 0x80, CHR 0x85],
     [CHR 0xE2, CHR 0x80, CHR 0x86], [CHR 0xE2, CHR 0x80, CHR 0x87],
     [CHR 0xE2, CHR 0x80, CHR 0x88], [CHR 0xE2, CHR 0x80, CHR 0x89],
     [CHR 0xE2, CHR 0x80, CHR 0x8A],
     [CHR 0xE2, CHR 0x80, CHR 0xA8], [CHR 0xE2, CHR 0x80, CHR 0xA9],
     [CHR 0xE2, CHR 0x80, CHR 0xAF],
     [CHR 0xE2, CHR 0x81, CHR 0x9F],
     [CHR 0xE3, CHR 0x80, CHR 0x80]]"

text \<open>Width in bytes of the space rune a string starts (ends) with; 0 when there is none.\<close>

definition leadingSpace :: "string \<Rightarrow> nat" where
  "leadingSpace s =
    (case find (\<lambda>p. take (length p) s = p) spaceRunes of
       None \<Rightarrow> 0
     | Some p \<Rightarrow> length p)"

definition trailingSpace :: "string \<Rightarrow> nat" where
  "trailingSpace s =
    (case find (\<lambda>p. length p \<le> length s \<and> drop (length s - length p) s = p) spaceRunes of
       None \<Rightarrow> 0
     | Some p \<Rightarrow> length p)"

lemma leadingSpace_le: "leadingSpace s \<le> length s"
proof (cases "find (\<lambda>p. take (length p) s = p) spaceRunes")
  case None
  then show ?thesis by (simp add: leadingSpace_def)
next
  case (Some p)
  then have "take (length p) s = p" by (auto simp: find_Some_iff)
  then have "length (take (length p) s) = length p" by simp
  then have "length p \<le> length s" by simp
  with Some show ?thesis by (simp add: leadingSpace_def)
qed

lemma trailingSpace_le: "trailingSpace s \<le> length s"
proof (cases "find (\<lambda>p. length p \<le> length s \<and> drop (length s - length p) s = p) spaceRunes")
  case None
  then show ?thesis by (simp add: trailingSpace_def)
next
  case (Some p)
  then have "length p \<le> length s" by (auto simp: find_Some_iff)
  with Some show ?thesis by (simp add: trailingSpace_def)
qed

function TrimLeft :: "string \<Rightarrow> string" where
  "TrimLeft s = (if leadingSpace s = 0 then s else TrimLeft (drop (leadingSpace s) s))"
  by pat_completeness auto
termination
proof (relation "measure length")
  show "wf (measure length)" by simp
next
  fix s :: string
  assume "leadingSpace s \<noteq> 0"
  moreover have "leadingSpace s \<le> length s" by (rule leadingSpace_le)
  ultimately show "(drop (leadingSpace s) s, s) \<in> measure length" by simp
qed

function TrimRight :: "string \<Rightarrow> string" where
  "TrimRight s =
    (if trailingSpace s = 0 then s else TrimRight (take (length s - trailingSpace s) s))"
  by pat_completeness auto
termination
proof (relation "measure length")
  show "wf (measure length)" by simp
next
  fix s :: string
  assume "trailingSpace s \<noteq> 0"
  moreover have "trailingSpace s \<le> length s" by (rule trailingSpace_le)
  ultimately show "(take (length s - trailingSpace s) s, s) \<in> measure length" by simp
qed

declare TrimLeft.simps [simp del] TrimRight.simps [simp del]

definition TrimSpace :: "string \<Rightarrow> string" where
  "TrimSpace s = TrimRight (TrimLeft s)"

subsection \<open>The library function \<open>strings.ToLower\<close>\<close>

text \<open>
  On a string of ASCII bytes \<open>strings.ToLower\<close> maps \<open>A\<close>..\<open>Z\<close> to \<open>a\<close>..\<open>z\<close>
  byte by byte. On any other string it maps every rune through the Unicode case tables
  (\<open>strings.Map(unicode.ToLower, s)\<close>); those tables are not part of the program, so
  that mapping is the parameter \<open>unicodeLower\<close> of the model.
\<close>

definition isASCII :: "char \<Rightarrow> bool" where
  "isASCII c = ((of_char c :: nat) < 0x80)"

definition lowerByte :: "char \<Rightarrow> char" where
  "lowerByte c =
    (if (of_char (CHR ''A'') :: nat) \<le> of_char c \<and> (of_char c :: nat) \<le> of_char (CHR ''Z'')
     then char_of ((of_char c :: nat) + 32) else c)"

definition ToLower :: "(string \<Rightarrow> string) \<Rightarrow> string \<Rightarrow> string" where
  "ToLower unicodeLower s =
    (if list_all isASCII s then map lowerByte s else unicodeLower s)"

subsection \<open>The two patterns\<close>

text \<open>
  Both patterns of the source are anchored at both ends (\<open>^\<close> ... \<open>$\<close>, without the
  multi-line flag) and are a sequence of character classes, each with a repetition range.
  A class is a list of inclusive byte ranges; a piece is a class with its least and its
  greatest (if any) number of repetitions. All classes are ASCII, so a byte beyond 0x7F
  matches none of them, as no rune beyond U+007F does in the source.
\<close>

type_synonym cls = "(char \<times> char) list"

record piece =
  chars :: cls
  minCount :: nat
  maxCount :: "nat option"

definition inClass :: "cls \<Rightarrow> char \<Rightarrow> bool" where
  "inClass rs c =
    list_ex (\<lambda>(lo, hi). (of_char lo :: nat) \<le> of_char c \<and> (of_char c :: nat) \<le> of_char hi) rs"

text \<open>
  \<open>MatchString ps s\<close>: the whole of \<open>s\<close> splits into consecutive blocks, one for each
  piece, the block of a piece having an admissible length and bytes of its class only.
\<close>

fun MatchString :: "piece list \<Rightarrow> string \<Rightarrow> bool" where
  "MatchString [] s = (s = [])"
| "MatchString (p # ps) s =
    list_ex (\<lambda>k. list_all (inClass (chars p)) (take k s) \<and> MatchString ps (drop k s))
      [minCount p ..< Suc (case maxCount p of None \<Rightarrow> length s | Some m \<Rightarrow> min m (length s))]"

definition letter :: cls where
  "letter = [(CHR ''A'', CHR ''Z''), (CHR ''a'', CHR ''z'')]"

definition once :: "cls \<Rightarrow> piece" where
  "once cs = \<lparr>chars = cs, minCount = 1, maxCount = Some 1\<rparr>"

text \<open>\<^verbatim>\<open>^[a-zA-Z0-9._%+-]+@[a-zA-Z0-9.-]+\.[a-zA-Z]{2,}$\<close>\<close>

definition emailRegex :: "piece list" where
  "emailRegex =
    [\<lparr>chars = [(CHR ''a'', CHR ''z''), (CHR ''A'', CHR ''Z''), (CHR ''0'', CHR ''9''),
               (CHR ''.'', CHR ''.''), (CHR ''_'', CHR ''_''), (CHR ''%'', CHR ''%''),
               (CHR ''+'', CHR ''+''), (CHR ''-'', CHR ''-'')],
      minCount = 1, maxCount = None\<rparr>,
     once [(CHR ''@'', CHR ''@'')],
     \<lparr>chars = [(CHR ''a'', CHR ''z''), (CHR ''A'', CHR ''Z''), (CHR ''0'', CHR ''9''),
               (CHR ''.'', CHR ''.''), (CHR ''-'', CHR ''-'')],
      minCount = 1, maxCount = None\<rparr>,
     once [(CHR ''.'', CHR ''.'')],
     \<lparr>chars = [(CHR ''a'', CHR ''z''), (CHR ''A'', CHR ''Z'')], minCount = 2, maxCount = None\<rparr>]"

text \<open>\<^verbatim>\<open>^[A-Za-z][A-Za-z ]{0,48}[A-Za-z]$\<close>\<close>

definition nameRegex :: "piece list" where
  "nameRegex =
    [once letter,
     \<lparr>chars = [(CHR ''A'', CHR ''Z''), (CHR ''a'', CHR ''z''), (CHR '' '', CHR '' '')],
      minCount = 0, maxCount = Some 48\<rparr>,
     once letter]"

subsection \<open>Validate, NewUser, Clone\<close>

text \<open>
  \<open>Validate\<close> has a pointer receiver and normalises the name and the email in place,
  also on the paths that fail: the model returns the record as the call leaves it,
  together with the error (\<open>None\<close> for \<open>nil\<close>).
\<close>

definition Validate :: "(string \<Rightarrow> string) \<Rightarrow> User \<Rightarrow> User \<times> error option" where
  "Validate unicodeLower u =
    (let u1 = u\<lparr>Name := TrimSpace (Name u)\<rparr> in
     if length (Name u1) < 2 \<or> length (Name u1) > 50 then (u1, Some ErrInvalidUserName)
     else if \<not> MatchString nameRegex (Name u1) then (u1, Some ErrInvalidUserName)
     else
       let u2 = u1\<lparr>Email := TrimSpace (ToLower unicodeLower (Email u1))\<rparr> in
       if \<not> MatchString emailRegex (Email u2) then (u2, Some ErrInvalidUserEmail)
       else if Age u2 < 1 \<or> Age u2 > 150 then (u2, Some ErrInvalidUserAge)
       else (u2, None))"

text \<open>\<open>now\<close> is the reading of \<open>time.Now().UTC()\<close> taken by the call.\<close>

definition NewUser ::
  "(string \<Rightarrow> string) \<Rightarrow> int \<Rightarrow> string \<Rightarrow> string \<Rightarrow> string \<Rightarrow> int \<Rightarrow> error + User" where
  "NewUser unicodeLower now uid name email age =
    (let user = \<lparr>ID = uid, Name = name, Email = email, Age = age,
                 CreatedAt = now, UpdatedAt = now\<rparr>
     in case Validate unicodeLower user of
          (user', Some err) \<Rightarrow> Inl err
        | (user', None) \<Rightarrow> Inr user')"

definition Clone :: "User \<Rightarrow> User" where
  "Clone u = \<lparr>ID = ID u, Name = Name u, Email = Email u, Age = Age u,
             CreatedAt = CreatedAt u, UpdatedAt = UpdatedAt u\<rparr>"

section \<open>The store: internal/repository/user_repository.go\<close>

text \<open>
  The repository owns two Go maps. Every method holds the lock of the repository from
  its first to its last statement, so a method is one atomic step on the pair of maps,
  and the model passes that pair through each call. Methods that take the read lock
  change nothing and only return their result.
\<close>

record InMemoryUserRepository =
  users :: "string \<rightharpoonup> User"
  emails :: "string \<rightharpoonup> string"

definition NewInMemoryUserRepository :: InMemoryUserRepository where
  "NewInMemoryUserRepository = \<lparr>users = Map.empty, emails = Map.empty\<rparr>"

definition Create :: "InMemoryUserRepository \<Rightarrow> User \<Rightarrow> InMemoryUserRepository \<times> error option" where
  "Create r user =
    (if users r (ID user) \<noteq> None then (r, Some ErrAlreadyExists)
     else if emails r (Email user) \<noteq> None then (r, Some ErrAlreadyExists)
     else (r\<lparr>users := (users r)(ID user \<mapsto> Clone user),
             emails := (emails r)(Email user \<mapsto> ID user)\<rparr>, None))"

definition GetByID :: "InMemoryUserRepository \<Rightarrow> string \<Rightarrow> error + User" where
  "GetByID r uid =
    (case users r uid of
       None \<Rightarrow> Inl ErrNotFound
     | Some user \<Rightarrow> Inr (Clone user))"

text \<open>
  \<open>GetByEmail\<close> reads \<open>r.users[userID]\<close> without testing presence: for an absent key
  the Go map yields the nil pointer, and \<open>Clone\<close> on it panics.
\<close>

definition GetByEmail :: "InMemoryUserRepository \<Rightarrow> string \<Rightarrow> error + User" where
  "GetByEmail r email =
    (case emails r email of
       None \<Rightarrow> Inl ErrNotFound
     | Some userID \<Rightarrow>
         (case users r userID of
            None \<Rightarrow> Inl NilDereference
          | Some user \<Rightarrow> Inr (Clone user)))"

text \<open>
  \<open>GetAll\<close> ranges over the primary map; Go leaves the order of that iteration open,
  so the result is given as the set of the copies.
\<close>

definition GetAll :: "InMemoryUserRepository \<Rightarrow> User set" where
  "GetAll r = Clone ` ran (users r)"

definition Update :: "InMemoryUserRepository \<Rightarrow> User \<Rightarrow> InMemoryUserRepository \<times> error option" where
  "Update r user =
    (case users r (ID user) of
       None \<Rightarrow> (r, Some ErrNotFound)
     | Some oldUser \<Rightarrow>
         if Email oldUser \<noteq> Email user then
           (case emails r (Email user) of
              Some existingUserID \<Rightarrow>
                if existingUserID \<noteq> ID user then (r, Some ErrAlreadyExists)
                else (r\<lparr>emails := ((emails r)(Email oldUser := None))(Email user \<mapsto> ID user),
                        users := (users r)(ID user \<mapsto> Clone user)\<rparr>, None)
            | None \<Rightarrow>
                (r\<lparr>emails := ((emails r)(Email oldUser := None))(Email user \<mapsto> ID user),
                   users := (users r)(ID user \<mapsto> Clone user)\<rparr>, None))
         else (r\<lparr>users := (users r)(ID user \<mapsto> Clone user)\<rparr>, None))"

definition Delete :: "InMemoryUserRepository \<Rightarrow> string \<Rightarrow> InMemoryUserRepository \<times> error option" where
  "Delete r uid =
    (case users r uid of
       None \<Rightarrow> (r, Some ErrNotFound)
     | Some user \<Rightarrow>
         (r\<lparr>users := (users r)(uid := None),
            emails := (emails r)(Email user := None)\<rparr>, None))"

definition Count :: "InMemoryUserRepository \<Rightarrow> int" where
  "Count r = int (card (dom (users r)))"

section \<open>The service: internal/service/user_service.go\<close>

text \<open>
  The service holds the repository and nothing else. The identifier that
  \<open>uuid.New().String()\<close> supplies and the reading of the clock are arguments of the
  model (\<open>uid\<close>, \<open>now\<close>).
\<close>

definition CreateUser ::
  "(string \<Rightarrow> string) \<Rightarrow> string \<Rightarrow> int \<Rightarrow> InMemoryUserRepository \<Rightarrow> string \<Rightarrow> string \<Rightarrow> int
    \<Rightarrow> InMemoryUserRepository \<times> (error + User)" where
  "CreateUser unicodeLower uid now r name email age =
    (case NewUser unicodeLower now uid name email age of
       Inl err \<Rightarrow> (r, Inl err)
     | Inr user \<Rightarrow>
         (case Create r user of
            (r', Some err) \<Rightarrow> (r', Inl err)
          | (r', None) \<Rightarrow> (r', Inr user)))"

definition GetUser :: "InMemoryUserRepository \<Rightarrow> string \<Rightarrow> error + User" where
  "GetUser r uid = GetByID r uid"

definition GetUserByEmail :: "InMemoryUserRepository \<Rightarrow> string \<Rightarrow> error + User" where
  "GetUserByEmail r email = GetByEmail r email"

definition GetAllUsers :: "InMemoryUserRepository \<Rightarrow> User set" where
  "GetAllUsers r = GetAll r"

definition UpdateUser ::
  "(string \<Rightarrow> string) \<Rightarrow> int \<Rightarrow> InMemoryUserRepository \<Rightarrow> string \<Rightarrow> string \<Rightarrow> string \<Rightarrow> int
    \<Rightarrow> InMemoryUserRepository \<times> (error + User)" where
  "UpdateUser unicodeLower now r uid name email age =
    (case GetByID r uid of
       Inl err \<Rightarrow> (r, Inl err)
     | Inr existingUser \<Rightarrow>
         (let updatedUser = \<lparr>ID = uid, Name = name, Email = email, Age = age,
                             CreatedAt = CreatedAt existingUser, UpdatedAt = now\<rparr>
          in case Validate unicodeLower updatedUser of
               (updatedUser', Some err) \<Rightarrow> (r, Inl err)
             | (updatedUser', None) \<Rightarrow>
                 (case Update r updatedUser' of
                    (r', Some err) \<Rightarrow> (r', Inl err)
                  | (r', None) \<Rightarrow> (r', Inr updatedUser'))))"


definition DeleteUser :: "InMemoryUserRepository \<Rightarrow> string \<Rightarrow> InMemoryUserRepository \<times> error option" where
  "DeleteUser r uid = Delete r uid"

definition CountUsers :: "InMemoryUserRepository \<Rightarrow> int" where
  "CountUsers r = Count r"

section \<open>Reachable stores\<close>

text \<open>
  The seven public operations of the repository, with arbitrary arguments, and the
  stores they lead to from the empty one.
\<close>

datatype operation =
    OpCreate User
  | OpGetByID string
  | OpGetByEmail string
  | OpGetAll
  | OpUpdate User
  | OpDelete string
  | OpCount

fun exec :: "InMemoryUserRepository \<Rightarrow> operation \<Rightarrow> InMemoryUserRepository" where
  "exec r (OpCreate user) = fst (Create r user)"
| "exec r (OpGetByID uid) = r"
| "exec r (OpGetByEmail email) = r"
| "exec r OpGetAll = r"
| "exec r (OpUpdate user) = fst (Update r user)"
| "exec r (OpDelete uid) = fst (Delete r uid)"
| "exec r OpCount = r"

inductive reachable :: "InMemoryUserRepository \<Rightarrow> bool" where
  empty: "reachable NewInMemoryUserRepository"
| step: "reachable r \<Longrightarrow> reachable (exec r opn)"

text \<open>
  The stores reached through the service, together with the latest reading of the
  clock. The clock is an external collaborator of the service; the specification
  requires that it never runs backwards, so each call that reads it finds a reading
  not earlier than the previous one.
\<close>

inductive svc_reachable :: "(string \<Rightarrow> string) \<Rightarrow> int \<Rightarrow> InMemoryUserRepository \<Rightarrow> bool"
  for unicodeLower :: "string \<Rightarrow> string" where
  svc_empty: "svc_reachable unicodeLower t NewInMemoryUserRepository"
| svc_create: "svc_reachable unicodeLower t r \<Longrightarrow> t \<le> now \<Longrightarrow>
    svc_reachable unicodeLower now (fst (CreateUser unicodeLower uid now r name email age))"
| svc_update: "svc_reachable unicodeLower t r \<Longrightarrow> t \<le> now \<Longrightarrow>
    svc_reachable unicodeLower now (fst (UpdateUser unicodeLower now r uid name email age))"
| svc_delete: "svc_reachable unicodeLower t r \<Longrightarrow>
    svc_reachable unicodeLower t (fst (DeleteUser r uid))"
| svc_read: "svc_reachable unicodeLower t r \<Longrightarrow> t \<le> t' \<Longrightarrow> svc_reachable unicodeLower t' r"

text \<open>The two maps agree with each other.\<close>

definition consistent :: "InMemoryUserRepository \<Rightarrow> bool" where
  "consistent r \<longleftrightarrow>
    (\<forall>uid u. users r uid = Some u \<longrightarrow> emails r (Email u) = Some uid) \<and>
    (\<forall>e uid. emails r e = Some uid \<longrightarrow> (\<exists>u. users r uid = Some u \<and> Email u = e))"


text \<open>
  What the service maintains on top of that: a record is stored under its own identifier,
  and no stored record was updated later than the latest reading of the clock.
\<close>

definition svc_inv :: "int \<Rightarrow> InMemoryUserRepository \<Rightarrow> bool" where
  "svc_inv t r \<longleftrightarrow> (\<forall>uid u. users r uid = Some u \<longrightarrow> ID u = uid \<and> UpdatedAt u \<le> t)"

section \<open>Shapes of names\<close>

text \<open>A letter is one of \<open>A\<close>..\<open>Z\<close>, \<open>a\<close>..\<open>z\<close>, the class \<^verbatim>\<open>[A-Za-z]\<close> of the patterns.\<close>

definition isLetter :: "char \<Rightarrow> bool" where
  "isLetter c = inClass letter c"

text \<open>
  A name of 2 to 50 bytes that starts and ends with a letter and has only letters and
  blanks in between.
\<close>

definition validName :: "string \<Rightarrow> bool" where
  "validName n \<longleftrightarrow>
     2 \<le> length n \<and> length n \<le> 50 \<and> isLetter (hd n) \<and> isLetter (last n) \<and>
     (\<forall>c \<in> set (butlast (tl n)). isLetter c \<or> c = CHR '' '')"

text \<open>Two blanks in a row somewhere in the string.\<close>

fun doubleSpace :: "string \<Rightarrow> bool" where
  "doubleSpace (a # b # cs) = ((a = CHR '' '' \<and> b = CHR '' '') \<or> doubleSpace (b # cs))"
| "doubleSpace cs = False"

text \<open>
  The shape in the words of the specification: as \<open>validName\<close>, and the blanks in
  between are single.
\<close>

definition specValidName :: "string \<Rightarrow> bool" where
  "specValidName n \<longleftrightarrow> validName n \<and> \<not> doubleSpace n"

section \<open>The scenario of the specification\<close>

text \<open>
  User A is created from the name \<open>John Doe\<close>, the email \<open>John@Example.com\<close> and the
  age 30, under the identifier \<open>a1\<close> at time 100; user B would be Jane, aged 25, with the
  email \<open>john@example.com\<close>, under the identifier \<open>b2\<close> at time 200. \<open>storeA\<close> is the store
  that holds A alone.
\<close>

definition userA :: User where
  "userA = \<lparr>ID = ''a1'', Name = ''John Doe'', Email = ''john@example.com'', Age = 30,
            CreatedAt = 100, UpdatedAt = 100\<rparr>"

definition userB :: User where
  "userB = \<lparr>ID = ''b2'', Name = ''Jane'', Email = ''john@example.com'', Age = 25,
            CreatedAt = 200, UpdatedAt = 200\<rparr>"

definition storeA :: InMemoryUserRepository where
  "storeA = \<lparr>users = [''a1'' \<mapsto> userA], emails = [''john@example.com'' \<mapsto> ''a1'']\<rparr>"

text \<open>
  Further records and stores of the scenario: A after an update of all three fields, A
  with the email of another user, A one year older, a second user C, and the store that
  holds A and C.
\<close>

definition userA2 :: User where
  "userA2 = \<lparr>ID = ''a1'', Name = ''John Updated'', Email = ''john.updated@example.com'',
             Age = 31, CreatedAt = 100, UpdatedAt = 300\<rparr>"


definition userAJ :: User where
  "userAJ = \<lparr>ID = ''a1'', Name = ''John Doe'', Email = ''jane@example.com'', Age = 30,
             CreatedAt = 100, UpdatedAt = 100\<rparr>"

definition userA31 :: User where
  "userA31 = \<lparr>ID = ''a1'', Name = ''John Doe'', Email = ''john@example.com'', Age = 31,
              CreatedAt = 100, UpdatedAt = 300\<rparr>"

definition userC :: User where
  "userC = \<lparr>ID = ''c3'', Name = ''Jane Smith'', Email = ''jane@example.com'', Age = 25,
            CreatedAt = 200, UpdatedAt = 200\<rparr>"

definition storeAC :: InMemoryUserRepository where
  "storeAC = \<lparr>users = [''a1'' \<mapsto> userA, ''c3'' \<mapsto> userC],
              emails = [''john@example.com'' \<mapsto> ''a1'', ''jane@example.com'' \<mapsto> ''c3'']\<rparr>"

section \<open>What the operations return\<close>

lemma Clone_id [simp]: "Clone u = u"
  by (simp add: Clone_def)

lemma Create_result:
  "Create r x =
    (if users r (ID x) \<noteq> None \<or> emails r (Email x) \<noteq> None then (r, Some ErrAlreadyExists)
     else (r\<lparr>users := (users r)(ID x \<mapsto> x), emails := (emails r)(Email x \<mapsto> ID x)\<rparr>, None))"
  by (simp add: Create_def)

lemma Delete_result:
  "Delete r uid =
    (case users r uid of
       None \<Rightarrow> (r, Some ErrNotFound)
     | Some u \<Rightarrow> (r\<lparr>users := (users r)(uid := None), emails := (emails r)(Email u := None)\<rparr>, None))"
  by (simp add: Delete_def)

lemma Update_result:
  "Update r x =
    (case users r (ID x) of
       None \<Rightarrow> (r, Some ErrNotFound)
     | Some old \<Rightarrow>
         if Email old = Email x then (r\<lparr>users := (users r)(ID x \<mapsto> x)\<rparr>, None)
         else if (\<exists>i. emails r (Email x) = Some i \<and> i \<noteq> ID x) then (r, Some ErrAlreadyExists)
         else (r\<lparr>emails := ((emails r)(Email old := None))(Email x \<mapsto> ID x),
                 users := (users r)(ID x \<mapsto> x)\<rparr>, None))"
  by (auto simp: Update_def split: option.splits)

lemma Create_error: "Create r u = (r', Some e) \<Longrightarrow> r' = r \<and> e = ErrAlreadyExists"
  by (auto simp: Create_result split: if_splits)

lemma Update_error:
  "Update r u = (r', Some e) \<Longrightarrow> r' = r \<and> (e = ErrNotFound \<or> e = ErrAlreadyExists)"
  by (auto simp: Update_result split: option.splits if_splits)

lemma Delete_error: "Delete r uid = (r', Some e) \<Longrightarrow> r' = r \<and> e = ErrNotFound"
  by (auto simp: Delete_result split: option.splits)

lemma Validate_error:
  "Validate L u = (u', Some e) \<Longrightarrow>
     e = ErrInvalidUserName \<or> e = ErrInvalidUserEmail \<or> e = ErrInvalidUserAge"
  by (auto simp: Validate_def Let_def split: if_splits)

lemma Validate_keeps:
  "Validate L u = (u', e) \<Longrightarrow>
     ID u' = ID u \<and> Age u' = Age u \<and> CreatedAt u' = CreatedAt u \<and> UpdatedAt u' = UpdatedAt u"
  by (auto simp: Validate_def Let_def split: if_splits)

lemma NewUser_error:
  "NewUser L now uid name email age = Inl e \<Longrightarrow>
     e = ErrInvalidUserName \<or> e = ErrInvalidUserEmail \<or> e = ErrInvalidUserAge"
  by (auto simp: NewUser_def Let_def split: prod.splits option.splits dest: Validate_error)

lemma NewUser_Inr:
  "NewUser L now uid name email age = Inr x \<Longrightarrow>
     ID x = uid \<and> CreatedAt x = now \<and> UpdatedAt x = now \<and> Age x = age \<and>
     Name x = TrimSpace name \<and> Email x = TrimSpace (ToLower L email)"
  by (auto simp: NewUser_def Validate_def Let_def split: if_splits)

lemma CreateUser_error:
  assumes "CreateUser L uid now r name email age = (r', Inl e)"
  shows "r' = r \<and> (e = ErrInvalidUserName \<or> e = ErrInvalidUserEmail \<or> e = ErrInvalidUserAge \<or>
                    e = ErrAlreadyExists)"
proof (cases "NewUser L now uid name email age")
  case (Inl e')
  with assms have "r' = r" "e = e'" by (simp_all add: CreateUser_def)
  with NewUser_error [OF Inl] show ?thesis by blast
next
  case (Inr user)
  obtain r1 e1 where c: "Create r user = (r1, e1)" by (cases "Create r user")
  with assms Inr obtain e' where "e1 = Some e'" "r' = r1" "e = e'"
    by (cases e1) (simp_all add: CreateUser_def)
  with Create_error [of r user r1 e'] c show ?thesis by simp
qed

lemma UpdateUser_error:
  assumes "UpdateUser L now r uid name email age = (r', Inl e)"
  shows "r' = r \<and> (e = ErrInvalidUserName \<or> e = ErrInvalidUserEmail \<or> e = ErrInvalidUserAge \<or>
                    e = ErrNotFound \<or> e = ErrAlreadyExists)"
proof (cases "users r uid")
  case None
  with assms show ?thesis by (simp add: UpdateUser_def GetByID_def)
next
  case (Some existing)
  define cand where "cand = \<lparr>ID = uid, Name = name, Email = email, Age = age,
                             CreatedAt = CreatedAt existing, UpdatedAt = now\<rparr>"
  obtain u' ve where v: "Validate L cand = (u', ve)" by (cases "Validate L cand")
  show ?thesis
  proof (cases ve)
    case (Some e')
    with assms \<open>users r uid = Some existing\<close> v have "r' = r" "e = e'"
      by (simp_all add: UpdateUser_def GetByID_def cand_def)
    with Validate_error [of L cand u' e'] v Some show ?thesis by blast
  next
    case None
    obtain r1 e1 where up: "Update r u' = (r1, e1)" by (cases "Update r u'")
    with assms \<open>users r uid = Some existing\<close> v None obtain e' where "e1 = Some e'" "r' = r1" "e = e'"
      by (cases e1) (simp_all add: UpdateUser_def GetByID_def cand_def)
    with Update_error [of r u' r1 e'] up show ?thesis by auto
  qed
qed

subsection \<open>The patterns\<close>

lemma MatchString_Cons:
  "MatchString (p # ps) s \<longleftrightarrow>
     (\<exists>m t. s = m @ t \<and> minCount p \<le> length m \<and>
        (case maxCount p of None \<Rightarrow> True | Some h \<Rightarrow> length m \<le> h) \<and>
        list_all (inClass (chars p)) m \<and> MatchString ps t)"
  (is "?L \<longleftrightarrow> ?R")
proof
  assume ?L
  then obtain k where k: "minCount p \<le> k"
      "k \<le> (case maxCount p of None \<Rightarrow> length s | Some h \<Rightarrow> min h (length s))"
      "list_all (inClass (chars p)) (take k s)" "MatchString ps (drop k s)"
    by (auto simp: list_ex_iff)
  from k(2) have len: "k \<le> length s" and hi: "(case maxCount p of None \<Rightarrow> True | Some h \<Rightarrow> k \<le> h)"
    by (auto split: option.splits)
  have "s = take k s @ drop k s" by simp
  moreover from len have "length (take k s) = k" by simp
  ultimately show ?R using k hi by metis
next
  assume ?R
  then obtain m t where mt: "s = m @ t" "minCount p \<le> length m"
      "(case maxCount p of None \<Rightarrow> True | Some h \<Rightarrow> length m \<le> h)"
      "list_all (inClass (chars p)) m" "MatchString ps t"
    by blast
  have "length m \<in> set [minCount p ..<
          Suc (case maxCount p of None \<Rightarrow> length s | Some h \<Rightarrow> min h (length s))]"
    using mt(1,2,3) by (auto split: option.splits)
  moreover have "take (length m) s = m" "drop (length m) s = t" using mt(1) by simp_all
  ultimately show ?L using mt(4,5) by (auto simp: list_ex_iff)
qed

lemma MatchString_once:
  "MatchString (once c # ps) s \<longleftrightarrow> (\<exists>a t. s = a # t \<and> inClass c a \<and> MatchString ps t)"
  (is "?L \<longleftrightarrow> ?R")
proof
  assume ?L
  then obtain m t where mt: "s = m @ t" "1 \<le> length m" "length m \<le> 1"
      "list_all (inClass c) m" "MatchString ps t"
    unfolding MatchString_Cons by (auto simp: once_def)
  from mt(2,3) obtain a where "m = [a]"
    by (cases m) auto
  with mt show ?R by simp
next
  assume ?R
  then obtain a t where "s = [a] @ t" "list_all (inClass c) [a]" "MatchString ps t"
    by auto
  moreover have "minCount (once c) \<le> length [a]"
    "(case maxCount (once c) of None \<Rightarrow> True | Some h \<Rightarrow> length [a] \<le> h)"
    by (simp_all add: once_def)
  ultimately show ?L
    unfolding MatchString_Cons by (metis piece.select_convs(1) once_def)
qed

lemma MatchString_upto:
  "MatchString (\<lparr>chars = c, minCount = 0, maxCount = Some n\<rparr> # ps) s \<longleftrightarrow>
     (\<exists>m t. s = m @ t \<and> length m \<le> n \<and> list_all (inClass c) m \<and> MatchString ps t)"
  unfolding MatchString_Cons by simp

lemma inClass_letter_space:
  "inClass [(CHR ''A'', CHR ''Z''), (CHR ''a'', CHR ''z''), (CHR '' '', CHR '' '')] c
     \<longleftrightarrow> isLetter c \<or> c = CHR '' ''"
proof -
  have "(of_char c :: nat) = 32 \<longleftrightarrow> c = CHR '' ''"
  proof
    assume "(of_char c :: nat) = 32"
    then have "(of_char c :: nat) = of_char (CHR '' '')" by simp
    then show "c = CHR '' ''" by (simp only: of_char_eq_iff)
  qed simp
  then show ?thesis
    by (auto simp: inClass_def isLetter_def letter_def)
qed

lemma inClass_letter_space_fun:
  "inClass [(CHR ''A'', CHR ''Z''), (CHR ''a'', CHR ''z''), (CHR '' '', CHR '' '')]
     = (\<lambda>c. isLetter c \<or> c = CHR '' '')"
  by (rule ext) (rule inClass_letter_space)

lemma nameRegex_shape:
  "MatchString nameRegex s \<longleftrightarrow>
     (\<exists>a m b. s = a # m @ [b] \<and> isLetter a \<and> isLetter b \<and> length m \<le> 48 \<and>
        (\<forall>c \<in> set m. isLetter c \<or> c = CHR '' ''))"
proof -
  have "MatchString nameRegex s \<longleftrightarrow>
      (\<exists>a t. s = a # t \<and> isLetter a \<and>
         (\<exists>m t'. t = m @ t' \<and> length m \<le> 48 \<and>
            list_all (\<lambda>c. isLetter c \<or> c = CHR '' '') m \<and>
            (\<exists>b t''. t' = b # t'' \<and> isLetter b \<and> t'' = [])))"
    by (simp only: nameRegex_def MatchString_once MatchString_upto MatchString.simps(1)
          inClass_letter_space_fun isLetter_def)
  also have "\<dots> \<longleftrightarrow> (\<exists>a m b. s = a # m @ [b] \<and> isLetter a \<and> isLetter b \<and> length m \<le> 48 \<and>
        (\<forall>c \<in> set m. isLetter c \<or> c = CHR '' ''))"
    by (simp add: list_all_iff) blast
  finally show ?thesis .
qed

lemma nameRegex_validName: "MatchString nameRegex s \<longleftrightarrow> validName s"
proof
  assume "MatchString nameRegex s"
  then obtain a m b where "s = a # m @ [b]" "isLetter a" "isLetter b" "length m \<le> 48"
      "\<forall>c \<in> set m. isLetter c \<or> c = CHR '' ''"
    unfolding nameRegex_shape by blast
  then show "validName s" by (simp add: validName_def)
next
  assume v: "validName s"
  then have "2 \<le> length s" by (simp add: validName_def)
  then obtain a t where s: "s = a # t"
    by (cases s) auto
  with \<open>2 \<le> length s\<close> have "t \<noteq> []" by auto
  then have t: "t = butlast t @ [last t]" by simp
  define m where "m = butlast t"
  define b where "b = last t"
  have sm: "s = a # m @ [b]" using s t by (simp add: m_def b_def)
  from v have "isLetter a" "isLetter b" "length m \<le> 48" "\<forall>c \<in> set m. isLetter c \<or> c = CHR '' ''"
    unfolding validName_def sm by simp_all
  with sm show "MatchString nameRegex s" unfolding nameRegex_shape by blast
qed

lemma validName_length: "validName s \<Longrightarrow> 2 \<le> length s \<and> length s \<le> 50"
  by (simp add: validName_def)

text \<open>What \<open>Validate\<close> answers, in full, and the names at the bounds of the length.\<close>

lemma Validate_outcome:
  "snd (Validate L u) =
    (if \<not> validName (TrimSpace (Name u)) then Some ErrInvalidUserName
     else if \<not> MatchString emailRegex (TrimSpace (ToLower L (Email u)))
       then Some ErrInvalidUserEmail
     else if Age u < 1 \<or> 150 < Age u then Some ErrInvalidUserAge
     else None)"
  by (auto simp: Validate_def Let_def nameRegex_validName dest: validName_length)

lemma validName_boundaries:
  "validName ''AB''" "validName (replicate 50 (CHR ''a''))"
  "\<not> validName ''A''" "\<not> validName (replicate 51 (CHR ''a''))"
  by code_simp+

subsection \<open>The two maps stay consistent\<close>

lemma consistent_empty: "consistent NewInMemoryUserRepository"
  by (simp add: consistent_def NewInMemoryUserRepository_def)

lemma consistentI:
  assumes "\<And>uid u. users r uid = Some u \<Longrightarrow> emails r (Email u) = Some uid"
    and "\<And>e uid. emails r e = Some uid \<Longrightarrow> \<exists>u. users r uid = Some u \<and> Email u = e"
  shows "consistent r"
  using assms unfolding consistent_def by blast

lemma consistentD1: "consistent r \<Longrightarrow> users r uid = Some u \<Longrightarrow> emails r (Email u) = Some uid"
  unfolding consistent_def by blast

lemma consistentD2:
  "consistent r \<Longrightarrow> emails r e = Some uid \<Longrightarrow> \<exists>u. users r uid = Some u \<and> Email u = e"
  unfolding consistent_def by blast

lemma consistent_Create:
  assumes c: "consistent r"
  shows "consistent (fst (Create r x))"
proof (cases "users r (ID x) \<noteq> None \<or> emails r (Email x) \<noteq> None")
  case True
  then show ?thesis using c by (simp add: Create_result)
next
  case False
  then have fresh: "users r (ID x) = None" "emails r (Email x) = None" by simp_all
  have eq: "fst (Create r x) =
      r\<lparr>users := (users r)(ID x \<mapsto> x), emails := (emails r)(Email x \<mapsto> ID x)\<rparr>"
    using fresh by (simp add: Create_result)
  show ?thesis
    unfolding eq
  proof (rule consistentI)
    fix uid u
    assume "users (r\<lparr>users := (users r)(ID x \<mapsto> x), emails := (emails r)(Email x \<mapsto> ID x)\<rparr>) uid
              = Some u"
    then consider "uid = ID x" "u = x" | "uid \<noteq> ID x" "users r uid = Some u"
      by (cases "uid = ID x") simp_all
    then show "emails (r\<lparr>users := (users r)(ID x \<mapsto> x), emails := (emails r)(Email x \<mapsto> ID x)\<rparr>)
                (Email u) = Some uid"
    proof cases
      case 1
      then show ?thesis by simp
    next
      case 2
      from consistentD1 [OF c 2(2)] have "emails r (Email u) = Some uid" .
      moreover from this fresh(2) have "Email u \<noteq> Email x" by auto
      ultimately show ?thesis by simp
    qed
  next
    fix e uid
    assume "emails (r\<lparr>users := (users r)(ID x \<mapsto> x), emails := (emails r)(Email x \<mapsto> ID x)\<rparr>) e
              = Some uid"
    then consider "e = Email x" "uid = ID x" | "e \<noteq> Email x" "emails r e = Some uid"
      by (cases "e = Email x") simp_all
    then show "\<exists>u. users (r\<lparr>users := (users r)(ID x \<mapsto> x),
                               emails := (emails r)(Email x \<mapsto> ID x)\<rparr>) uid = Some u \<and> Email u = e"
    proof cases
      case 1
      then show ?thesis by simp
    next
      case 2
      from consistentD2 [OF c 2(2)] obtain u where u: "users r uid = Some u" "Email u = e"
        by blast
      from u(1) fresh(1) have "uid \<noteq> ID x" by auto
      with u show ?thesis by simp
    qed
  qed
qed

lemma consistent_Delete:
  assumes c: "consistent r"
  shows "consistent (fst (Delete r uid))"
proof (cases "users r uid")
  case None
  then show ?thesis using c by (simp add: Delete_result)
next
  case (Some old)
  have old: "emails r (Email old) = Some uid" using consistentD1 [OF c Some] .
  have eq: "fst (Delete r uid) =
      r\<lparr>users := (users r)(uid := None), emails := (emails r)(Email old := None)\<rparr>"
    using Some by (simp add: Delete_result)
  show ?thesis
    unfolding eq
  proof (rule consistentI)
    fix uid' u
    assume "users (r\<lparr>users := (users r)(uid := None), emails := (emails r)(Email old := None)\<rparr>) uid'
              = Some u"
    then have 1: "uid' \<noteq> uid" "users r uid' = Some u"
      by (simp_all split: if_splits)
    from consistentD1 [OF c 1(2)] have 2: "emails r (Email u) = Some uid'" .
    with old 1(1) have "Email u \<noteq> Email old" by auto
    with 2 show "emails (r\<lparr>users := (users r)(uid := None), emails := (emails r)(Email old := None)\<rparr>)
                  (Email u) = Some uid'"
      by simp
  next
    fix e uid'
    assume "emails (r\<lparr>users := (users r)(uid := None), emails := (emails r)(Email old := None)\<rparr>) e
              = Some uid'"
    then have 1: "e \<noteq> Email old" "emails r e = Some uid'"
      by (simp_all split: if_splits)
    from consistentD2 [OF c 1(2)] obtain u where u: "users r uid' = Some u" "Email u = e"
      by blast
    with Some 1(1) have "uid' \<noteq> uid" by auto
    with u show "\<exists>u. users (r\<lparr>users := (users r)(uid := None),
                               emails := (emails r)(Email old := None)\<rparr>) uid' = Some u \<and> Email u = e"
      by simp
  qed
qed

lemma consistent_Update:
  assumes c: "consistent r"
  shows "consistent (fst (Update r x))"
proof (cases "users r (ID x)")
  case None
  then show ?thesis using c by (simp add: Update_result)
next
  case (Some old)
  have old: "emails r (Email old) = Some (ID x)" using consistentD1 [OF c Some] .
  show ?thesis
  proof (cases "Email old = Email x")
    case True
    have eq: "fst (Update r x) = r\<lparr>users := (users r)(ID x \<mapsto> x)\<rparr>"
      using Some True by (simp add: Update_result)
    show ?thesis
      unfolding eq
    proof (rule consistentI)
      fix uid u
      assume "users (r\<lparr>users := (users r)(ID x \<mapsto> x)\<rparr>) uid = Some u"
      then consider "uid = ID x" "u = x" | "uid \<noteq> ID x" "users r uid = Some u"
        by (cases "uid = ID x") simp_all
      then show "emails (r\<lparr>users := (users r)(ID x \<mapsto> x)\<rparr>) (Email u) = Some uid"
      proof cases
        case 1
        with old True show ?thesis by simp
      next
        case 2
        with consistentD1 [OF c 2(2)] show ?thesis by simp
      qed
    next
      fix e uid
      assume "emails (r\<lparr>users := (users r)(ID x \<mapsto> x)\<rparr>) e = Some uid"
      then have 1: "emails r e = Some uid" by simp
      from consistentD2 [OF c 1] obtain u where u: "users r uid = Some u" "Email u = e"
        by blast
      show "\<exists>u. users (r\<lparr>users := (users r)(ID x \<mapsto> x)\<rparr>) uid = Some u \<and> Email u = e"
      proof (cases "uid = ID x")
        case True
        with u Some have "e = Email old" by simp
        with \<open>Email old = Email x\<close> True show ?thesis by simp
      next
        case False
        with u show ?thesis by simp
      qed
    qed
  next
    case False
    show ?thesis
    proof (cases "\<exists>i. emails r (Email x) = Some i \<and> i \<noteq> ID x")
      case True
      then show ?thesis using Some False c by (simp add: Update_result)
    next
      case noclash: False
      have eq: "fst (Update r x) =
          r\<lparr>emails := ((emails r)(Email old := None))(Email x \<mapsto> ID x),
            users := (users r)(ID x \<mapsto> x)\<rparr>"
        using Some False noclash by (auto simp: Update_result)
      show ?thesis
        unfolding eq
      proof (rule consistentI)
        fix uid u
        assume "users (r\<lparr>emails := ((emails r)(Email old := None))(Email x \<mapsto> ID x),
                         users := (users r)(ID x \<mapsto> x)\<rparr>) uid = Some u"
        then consider "uid = ID x" "u = x" | "uid \<noteq> ID x" "users r uid = Some u"
          by (cases "uid = ID x") simp_all
        then show "emails (r\<lparr>emails := ((emails r)(Email old := None))(Email x \<mapsto> ID x),
                             users := (users r)(ID x \<mapsto> x)\<rparr>) (Email u) = Some uid"
        proof cases
          case 1
          then show ?thesis by simp
        next
          case 2
          from consistentD1 [OF c 2(2)] have e: "emails r (Email u) = Some uid" .
          from e old 2(1) have "Email u \<noteq> Email old" by auto
          moreover from e noclash 2(1) have "Email u \<noteq> Email x" by auto
          ultimately show ?thesis using e by simp
        qed
      next
        fix e uid
        assume "emails (r\<lparr>emails := ((emails r)(Email old := None))(Email x \<mapsto> ID x),
                          users := (users r)(ID x \<mapsto> x)\<rparr>) e = Some uid"
        then consider "e = Email x" "uid = ID x"
          | "e \<noteq> Email x" "e \<noteq> Email old" "emails r e = Some uid"
          by (cases "e = Email x"; cases "e = Email old") simp_all
        then show "\<exists>u. users (r\<lparr>emails := ((emails r)(Email old := None))(Email x \<mapsto> ID x),
                                  users := (users r)(ID x \<mapsto> x)\<rparr>) uid = Some u \<and> Email u = e"
        proof cases
          case 1
          then show ?thesis by simp
        next
          case 2
          from consistentD2 [OF c 2(3)] obtain u where u: "users r uid = Some u" "Email u = e"
            by blast
          with Some 2(2) have "uid \<noteq> ID x" by auto
          with u show ?thesis by simp
        qed
      qed
    qed
  qed
qed

lemma consistent_exec: "consistent r \<Longrightarrow> consistent (exec r opn)"
  by (cases opn) (simp_all add: consistent_Create consistent_Update consistent_Delete)

lemma reachable_consistent: "reachable r \<Longrightarrow> consistent r"
  by (induction rule: reachable.induct) (simp_all add: consistent_empty consistent_exec)

subsection \<open>Records are stored under their identifiers\<close>




subsection \<open>What the service maintains\<close>

lemma svc_inv_mono: "svc_inv t r \<Longrightarrow> t \<le> t' \<Longrightarrow> svc_inv t' r"
  unfolding svc_inv_def by fastforce

lemma svc_inv_empty: "svc_inv t NewInMemoryUserRepository"
  by (simp add: svc_inv_def NewInMemoryUserRepository_def)

lemma svc_inv_Create:
  assumes "svc_inv t r" and "UpdatedAt x \<le> t"
  shows "svc_inv t (fst (Create r x))"
  using assms unfolding svc_inv_def by (simp add: Create_result)

lemma svc_inv_Update:
  assumes "svc_inv t r" and "UpdatedAt x \<le> t"
  shows "svc_inv t (fst (Update r x))"
  using assms unfolding svc_inv_def by (simp add: Update_result split: option.splits)

lemma svc_inv_Delete:
  assumes "svc_inv t r"
  shows "svc_inv t (fst (Delete r uid))"
  using assms unfolding svc_inv_def by (simp add: Delete_result split: option.splits)

lemma svc_inv_CreateUser:
  assumes "svc_inv now r"
  shows "svc_inv now (fst (CreateUser L uid now r name email age))"
proof (cases "NewUser L now uid name email age")
  case (Inl e)
  with assms show ?thesis by (simp add: CreateUser_def)
next
  case (Inr user)
  then have "UpdatedAt user \<le> now" by (auto dest: NewUser_Inr)
  from svc_inv_Create [OF assms this]
  have "svc_inv now (fst (Create r user))" .
  moreover have "fst (CreateUser L uid now r name email age) = fst (Create r user)"
    using Inr by (simp add: CreateUser_def split: prod.splits option.splits)
  ultimately show ?thesis by simp
qed

lemma UpdateUser_cases:
  assumes "users r uid = Some existing"
    and "Validate L \<lparr>ID = uid, Name = name, Email = email, Age = age,
                     CreatedAt = CreatedAt existing, UpdatedAt = now\<rparr> = (u', ve)"
  shows "UpdateUser L now r uid name email age =
     (case ve of
        Some e \<Rightarrow> (r, Inl e)
      | None \<Rightarrow> (case Update r u' of (r', Some e) \<Rightarrow> (r', Inl e) | (r', None) \<Rightarrow> (r', Inr u')))"
  using assms by (simp add: UpdateUser_def GetByID_def split: option.splits)



lemma svc_inv_UpdateUser:
  assumes "svc_inv now r"
  shows "svc_inv now (fst (UpdateUser L now r uid name email age))"
proof (cases "users r uid")
  case None
  with assms show ?thesis by (simp add: UpdateUser_def GetByID_def)
next
  case (Some existing)
  obtain u' ve where v: "Validate L \<lparr>ID = uid, Name = name, Email = email, Age = age,
      CreatedAt = CreatedAt existing, UpdatedAt = now\<rparr> = (u', ve)"
    by (cases "Validate L \<lparr>ID = uid, Name = name, Email = email, Age = age,
      CreatedAt = CreatedAt existing, UpdatedAt = now\<rparr>")
  from Validate_keeps [OF v] have "UpdatedAt u' \<le> now" by simp
  from svc_inv_Update [OF assms this] have "svc_inv now (fst (Update r u'))" .
  then show ?thesis
    using assms by (auto simp: UpdateUser_cases [OF Some v] split: option.splits prod.splits)
qed

lemma svc_reachable_inv: "svc_reachable L t r \<Longrightarrow> svc_inv t r"
proof (induction rule: svc_reachable.induct)
  case (svc_empty t)
  show ?case by (rule svc_inv_empty)
next
  case (svc_create t r now uid name email age)
  then have "svc_inv now r" by (blast intro: svc_inv_mono)
  then show ?case by (rule svc_inv_CreateUser)
next
  case (svc_update t r now uid name email age)
  then have "svc_inv now r" by (blast intro: svc_inv_mono)
  then show ?case by (rule svc_inv_UpdateUser)
next
  case (svc_delete t r uid)
  then show ?case by (simp add: DeleteUser_def svc_inv_Delete)
next
  case (svc_read t r t')
  then show ?case by (blast intro: svc_inv_mono)
qed

text \<open>With a clock that does not run backwards the update time does not go down.\<close>

lemma UpdateUser_clock_forward:
  assumes "svc_reachable L t r" and "t \<le> now"
    and "users r uid = Some original"
    and "UpdateUser L now r uid name email age = (r', Inr result)"
  shows "UpdatedAt original \<le> UpdatedAt result"
proof -
  from svc_reachable_inv [OF assms(1)] assms(3)
  have orig: "UpdatedAt original \<le> t"
    by (auto simp: svc_inv_def)
  obtain u' ve where v: "Validate L \<lparr>ID = uid, Name = name, Email = email, Age = age,
      CreatedAt = CreatedAt original, UpdatedAt = now\<rparr> = (u', ve)"
    by (cases "Validate L \<lparr>ID = uid, Name = name, Email = email, Age = age,
      CreatedAt = CreatedAt original, UpdatedAt = now\<rparr>")
  from Validate_keeps [OF v] have keep: "UpdatedAt u' = now" by simp
  from assms(4) have "result = u'"
    unfolding UpdateUser_cases [OF assms(3) v]
    by (auto split: option.splits prod.splits)
  with keep orig assms(2) show ?thesis by simp
qed

lemma CreateUser_Inr:
  assumes "CreateUser L uid now r name email age = (r', Inr u)"
  shows "NewUser L now uid name email age = Inr u \<and> Create r u = (r', None)"
  using assms
  by (auto simp: CreateUser_def split: sum.splits prod.splits option.splits)

lemma CreateUser_twice:
  assumes "TrimSpace (ToLower L emx) = TrimSpace (ToLower L emy)"
    and "CreateUser L uidx nowx r namex emx agex = (sa, resa)"
    and "CreateUser L uidy nowy sa namey emy agey = (sb, resb)"
  shows "isl resa \<or> isl resb"
proof (rule ccontr)
  assume "\<not> (isl resa \<or> isl resb)"
  then obtain ua ub where res: "resa = Inr ua" "resb = Inr ub"
    by (cases resa; cases resb) auto
  from CreateUser_Inr [OF assms(2) [unfolded res]]
  have a: "Email ua = TrimSpace (ToLower L emx)" "Create r ua = (sa, None)"
    by (auto dest: NewUser_Inr)
  from CreateUser_Inr [OF assms(3) [unfolded res]]
  have b: "Email ub = TrimSpace (ToLower L emy)" "Create sa ub = (sb, None)"
    by (auto dest: NewUser_Inr)
  from a(2) have "emails sa (Email ua) \<noteq> None"
    by (auto simp: Create_result split: if_splits)
  moreover from b(2) have "emails sa (Email ub) = None"
    by (auto simp: Create_result split: if_splits)
  ultimately show False using a(1) b(1) assms(1) by simp
qed

lemma UpdateUser_absent:
  "users r uid = None \<Longrightarrow> UpdateUser L now r uid name email age = (r, Inl ErrNotFound)"
  by (simp add: UpdateUser_def GetByID_def)

text \<open>
  An index entry without its record makes \<open>GetByEmail\<close> panic; and every store the
  service reaches is one the public operations of the repository reach.
\<close>

lemma GetByEmail_dangling:
  "GetByEmail \<lparr>users = Map.empty, emails = [e \<mapsto> uid]\<rparr> e = Inl NilDereference"
  by (simp add: GetByEmail_def)

lemma reachable_CreateUser:
  assumes "reachable r"
  shows "reachable (fst (CreateUser L uid now r name email age))"
proof (cases "NewUser L now uid name email age")
  case (Inl e)
  with assms show ?thesis by (simp add: CreateUser_def)
next
  case (Inr user)
  have "reachable (exec r (OpCreate user))" using assms by (rule reachable.step)
  moreover have "fst (CreateUser L uid now r name email age) = fst (Create r user)"
    using Inr by (simp add: CreateUser_def split: prod.splits option.splits)
  ultimately show ?thesis by simp
qed

lemma reachable_UpdateUser:
  assumes "reachable r"
  shows "reachable (fst (UpdateUser L now r uid name email age))"
proof (cases "users r uid")
  case None
  with assms show ?thesis by (simp add: UpdateUser_absent)
next
  case (Some existing)
  obtain u' ve where v: "Validate L \<lparr>ID = uid, Name = name, Email = email, Age = age,
      CreatedAt = CreatedAt existing, UpdatedAt = now\<rparr> = (u', ve)"
    by (cases "Validate L \<lparr>ID = uid, Name = name, Email = email, Age = age,
      CreatedAt = CreatedAt existing, UpdatedAt = now\<rparr>")
  have "reachable (exec r (OpUpdate u'))" using assms by (rule reachable.step)
  then show ?thesis
    using assms by (auto simp: UpdateUser_cases [OF Some v] split: option.splits prod.splits)
qed

lemma svc_reachable_reachable: "svc_reachable L t r \<Longrightarrow> reachable r"
proof (induction rule: svc_reachable.induct)
  case (svc_empty t)
  show ?case by (rule reachable.empty)
next
  case (svc_create t r now uid name email age)
  then show ?case by (simp add: reachable_CreateUser)
next
  case (svc_update t r now uid name email age)
  then show ?case by (simp add: reachable_UpdateUser)
next
  case (svc_delete t r uid)
  have "reachable (exec r (OpDelete uid))" using svc_delete.IH by (rule reachable.step)
  then show ?case by (simp add: DeleteUser_def)
next
  case (svc_read t r t')
  then show ?case by simp
qed

subsection \<open>The scenario, evaluated\<close>

lemma Validate_A:
  "Validate id \<lparr>ID = ''a1'', Name = ''John Doe'', Email = ''John@Example.com'', Age = 30,
                 CreatedAt = 100, UpdatedAt = 100\<rparr> = (userA, None)"
  by code_simp

lemma NewUser_A: "NewUser id 100 ''a1'' ''John Doe'' ''John@Example.com'' 30 = Inr userA"
  by (simp add: NewUser_def Validate_A)

lemma NewUser_B: "NewUser id 200 ''b2'' ''Jane'' ''john@example.com'' 25 = Inr userB"
  by code_simp

lemma Create_A: "Create NewInMemoryUserRepository userA = (storeA, None)"
  by (simp add: Create_result NewInMemoryUserRepository_def storeA_def userA_def)

lemma Create_B: "Create storeA userB = (storeA, Some ErrAlreadyExists)"
  by (simp add: Create_result storeA_def userA_def userB_def)

lemma CreateUser_A:
  "CreateUser id ''a1'' 100 NewInMemoryUserRepository ''John Doe'' ''John@Example.com'' 30
     = (storeA, Inr userA)"
  by (simp add: CreateUser_def NewUser_A Create_A)

lemma CreateUser_B:
  "CreateUser id ''b2'' 200 storeA ''Jane'' ''john@example.com'' 25
     = (storeA, Inl ErrAlreadyExists)"
  by (simp add: CreateUser_def NewUser_B Create_B)

lemma reachable_storeA: "reachable storeA"
proof -
  have "reachable (exec NewInMemoryUserRepository (OpCreate userA))"
    by (rule reachable.step) (rule reachable.empty)
  then show ?thesis by (simp add: Create_A)
qed


lemma users_storeA: "users storeA ''a1'' = Some userA" "users storeA ''b2'' = None"
  by (simp_all add: storeA_def)

lemma emails_storeA: "emails storeA ''john@example.com'' = Some ''a1''"
  by (simp add: storeA_def)

lemma Create_C: "Create storeA userC = (storeAC, None)"
  by (simp add: Create_result storeA_def storeAC_def userA_def userC_def)

lemma users_storeAC: "users storeAC ''a1'' = Some userA" "users storeAC ''c3'' = Some userC"
  by (simp_all add: storeAC_def)

lemma emails_storeAC: "emails storeAC ''jane@example.com'' = Some ''c3''"
  by (simp add: storeAC_def)

lemma Delete_A: "Delete storeA ''a1'' = (NewInMemoryUserRepository, None)"
  by (simp add: Delete_result storeA_def userA_def NewInMemoryUserRepository_def)

lemma Validate_A2:
  "Validate id \<lparr>ID = ''a1'', Name = ''John Updated'', Email = ''john.updated@example.com'',
                 Age = 31, CreatedAt = CreatedAt userA, UpdatedAt = 300\<rparr> = (userA2, None)"
  by code_simp

lemma Validate_A_bad_age:
  "snd (Validate id \<lparr>ID = ''a1'', Name = ''John Doe'', Email = ''john@example.com'',
                 Age = - 1, CreatedAt = CreatedAt userA, UpdatedAt = 300\<rparr>)
     = Some ErrInvalidUserAge"
  by code_simp

lemma Update_A2:
  "Update storeA userA2 =
     (\<lparr>users = [''a1'' \<mapsto> userA2], emails = [''john.updated@example.com'' \<mapsto> ''a1'']\<rparr>, None)"
  by (simp add: Update_result storeA_def userA_def userA2_def)

lemma UpdateUser_A2:
  "UpdateUser id 300 storeA ''a1'' ''John Updated'' ''john.updated@example.com'' 31 =
     (\<lparr>users = [''a1'' \<mapsto> userA2], emails = [''john.updated@example.com'' \<mapsto> ''a1'']\<rparr>,
      Inr userA2)"
  by (simp add: UpdateUser_cases [OF users_storeA(1) Validate_A2] Update_A2)

lemma UpdateUser_A_bad_age:
  "UpdateUser id 300 storeA ''a1'' ''John Doe'' ''john@example.com'' (- 1) =
     (storeA, Inl ErrInvalidUserAge)"
proof -
  obtain u' where "Validate id \<lparr>ID = ''a1'', Name = ''John Doe'', Email = ''john@example.com'',
      Age = - 1, CreatedAt = CreatedAt userA, UpdatedAt = 300\<rparr> = (u', Some ErrInvalidUserAge)"
    using Validate_A_bad_age by (metis prod.collapse)
  from UpdateUser_cases [OF users_storeA(1) this] show ?thesis by simp
qed





section \<open>Properties of the store and of the service\<close>

text \<open>
  C1. Two records with the same email and different identifiers, created one after the
  other on the same store: at most one creation succeeds, since once the first has
  succeeded the second fails with \<open>ErrAlreadyExists\<close>. A creation fails with
  \<open>ErrAlreadyExists\<close> exactly when the identifier is a key of the primary map or the
  email is a key of the reverse index, and then the store is unchanged; otherwise it
  enters the record in both maps. The store compares the email of the record as it is
  handed over; the service hands over the normalised one, so the same holds for two
  calls of \<open>CreateUser\<close> whose emails have the same normal form.
\<close>

theorem Create_uniqueness:
  "(Email x = Email y \<longrightarrow> ID x \<noteq> ID y \<longrightarrow> Create r x = (ra, ea) \<longrightarrow> Create ra y = (rb, eb) \<longrightarrow>
      (ea \<noteq> None \<or> eb \<noteq> None) \<and> (ea = None \<longrightarrow> eb = Some ErrAlreadyExists)) \<and>
   snd (Create r x) =
     (if users r (ID x) \<noteq> None \<or> emails r (Email x) \<noteq> None
      then Some ErrAlreadyExists else None) \<and>
   (snd (Create r x) = None \<longrightarrow>
      fst (Create r x) =
        r\<lparr>users := (users r)(ID x \<mapsto> x), emails := (emails r)(Email x \<mapsto> ID x)\<rparr>) \<and>
   (snd (Create r x) \<noteq> None \<longrightarrow> fst (Create r x) = r) \<and>
   (TrimSpace (ToLower L emx) = TrimSpace (ToLower L emy) \<longrightarrow> uidx \<noteq> uidy \<longrightarrow>
      CreateUser L uidx nowx r namex emx agex = (sa, resa) \<longrightarrow>
      CreateUser L uidy nowy sa namey emy agey = (sb, resb) \<longrightarrow>
      isl resa \<or> isl resb)"
proof (intro conjI impI)
  assume h: "Email x = Email y" "Create r x = (ra, ea)" "Create ra y = (rb, eb)"
  then show "ea \<noteq> None \<or> eb \<noteq> None"
    by (auto simp: Create_result split: if_splits)
  assume "ea = None"
  with h show "eb = Some ErrAlreadyExists"
    by (auto simp: Create_result split: if_splits)
next
  show "snd (Create r x) =
     (if users r (ID x) \<noteq> None \<or> emails r (Email x) \<noteq> None
      then Some ErrAlreadyExists else None)"
    by (simp add: Create_result)
next
  assume "snd (Create r x) = None"
  then show "fst (Create r x) =
        r\<lparr>users := (users r)(ID x \<mapsto> x), emails := (emails r)(Email x \<mapsto> ID x)\<rparr>"
    by (simp add: Create_result split: if_splits)
next
  assume "snd (Create r x) \<noteq> None"
  then show "fst (Create r x) = r"
    by (auto simp: Create_result split: if_splits)
next
  assume "TrimSpace (ToLower L emx) = TrimSpace (ToLower L emy)"
    "CreateUser L uidx nowx r namex emx agex = (sa, resa)"
    "CreateUser L uidy nowy sa namey emy agey = (sb, resb)"
  then show "isl resa \<or> isl resb" by (rule CreateUser_twice)
qed

theorem Create_uniqueness_witness:
  "Email userA = Email userB \<and> ID userA \<noteq> ID userB \<and>
   Create NewInMemoryUserRepository userA = (storeA, None) \<and>
   Create storeA userB = (storeA, Some ErrAlreadyExists) \<and>
   TrimSpace (ToLower id ''John@Example.com'') = TrimSpace (ToLower id ''john@example.com'') \<and>
   CreateUser id ''a1'' 100 NewInMemoryUserRepository ''John Doe'' ''John@Example.com'' 30
     = (storeA, Inr userA) \<and>
   CreateUser id ''b2'' 200 storeA ''Jane'' ''john@example.com'' 25
     = (storeA, Inl ErrAlreadyExists)"
proof -
  have e: "Email userA = Email userB" "ID userA \<noteq> ID userB"
    by (simp_all add: userA_def userB_def)
  have n: "TrimSpace (ToLower id ''John@Example.com'') = TrimSpace (ToLower id ''john@example.com'')"
    by code_simp
  obtain rb eb where b: "Create storeA userB = (rb, eb)"
    by (cases "Create storeA userB")
  obtain sb resb where sb: "CreateUser id ''b2'' 200 storeA ''Jane'' ''john@example.com'' 25 = (sb, resb)"
    by (cases "CreateUser id ''b2'' 200 storeA ''Jane'' ''john@example.com'' 25")
  from Create_uniqueness [where x = userA and y = userB and r = NewInMemoryUserRepository
      and ra = storeA and ea = None and rb = rb and eb = eb
      and L = id and emx = "''John@Example.com''" and emy = "''john@example.com''"
      and uidx = "''a1''" and uidy = "''b2''" and nowx = 100 and nowy = 200
      and namex = "''John Doe''" and namey = "''Jane''" and agex = 30 and agey = 25
      and sa = storeA and resa = "Inr userA" and sb = sb and resb = resb]
    e n Create_A b CreateUser_A sb
  have "eb = Some ErrAlreadyExists" "isl resb" by simp_all
  with e n Create_A Create_B CreateUser_A CreateUser_B show ?thesis by simp
qed

text \<open>
  C2. In every store reached from the empty one by the seven public operations of the
  repository, the two maps agree: a record stored under an identifier has its email
  indexed under that identifier, and an email indexed under an identifier belongs to
  the record stored under it. Hence no two stored records have the same email.
\<close>

theorem reachable_maps_agree:
  assumes "reachable r"
  shows "(\<forall>uid u. users r uid = Some u \<longrightarrow> emails r (Email u) = Some uid) \<and>
         (\<forall>e uid. emails r e = Some uid \<longrightarrow> (\<exists>u. users r uid = Some u \<and> Email u = e)) \<and>
         (\<forall>uida ua uidb ub. users r uida = Some ua \<and> users r uidb = Some ub \<and>
             Email ua = Email ub \<longrightarrow> uida = uidb)"
proof -
  from assms have c: "consistent r" by (rule reachable_consistent)
  have "uida = uidb"
    if "users r uida = Some ua" "users r uidb = Some ub" "Email ua = Email ub"
    for uida ua uidb ub
    using consistentD1 [OF c that(1)] consistentD1 [OF c that(2)] that(3) by simp
  with c show ?thesis unfolding consistent_def by blast
qed

theorem reachable_maps_agree_witness:
  "reachable storeAC \<and> users storeAC ''a1'' = Some userA \<and> users storeAC ''c3'' = Some userC \<and>
   emails storeAC (Email userC) = Some ''c3'' \<and>
   emails storeAC ''jane@example.com'' = Some ''c3'' \<and>
   (\<exists>u. users storeAC ''c3'' = Some u \<and> Email u = ''jane@example.com'') \<and>
   Email userA \<noteq> Email userC"
proof -
  have "reachable (exec storeA (OpCreate userC))"
    by (rule reachable.step) (rule reachable_storeA)
  then have r: "reachable storeAC" by (simp add: Create_C)
  have d: "''a1'' \<noteq> ''c3''" by simp
  from reachable_maps_agree [OF r] users_storeAC emails_storeAC d
  have "emails storeAC (Email userC) = Some ''c3''"
    "\<exists>u. users storeAC ''c3'' = Some u \<and> Email u = ''jane@example.com''"
    "Email userA \<noteq> Email userC"
    by blast+
  with r users_storeAC emails_storeAC show ?thesis by blast
qed

text \<open>
  C3. Each mutating operation either succeeds or leaves the store as it was. When
  \<open>Create\<close>, \<open>Update\<close> or \<open>Delete\<close> returns an error, or \<open>CreateUser\<close> or \<open>UpdateUser\<close>
  returns one, both maps of the store after the call are those before the call, and the
  error is one of the five kinds (\<open>Create\<close>: already exists; \<open>Update\<close>: not found or
  already exists; \<open>Delete\<close>: not found; the service calls: also the three validation
  errors). \<open>CreateUser\<close> validates before it calls the store; \<open>UpdateUser\<close> first reads
  the stored record, then validates, then calls \<open>Update\<close>.
\<close>

theorem all_or_nothing:
  "(snd (Create ra ua) \<noteq> None \<longrightarrow>
      fst (Create ra ua) = ra \<and> snd (Create ra ua) = Some ErrAlreadyExists) \<and>
   (snd (Update rb ub) \<noteq> None \<longrightarrow>
      fst (Update rb ub) = rb \<and> snd (Update rb ub) \<in> {Some ErrNotFound, Some ErrAlreadyExists}) \<and>
   (snd (Delete rc uidc) \<noteq> None \<longrightarrow>
      fst (Delete rc uidc) = rc \<and> snd (Delete rc uidc) = Some ErrNotFound) \<and>
   (\<forall>e. snd (CreateUser L uidd nowd rd named emaild aged) = Inl e \<longrightarrow>
      fst (CreateUser L uidd nowd rd named emaild aged) = rd \<and>
      e \<in> {ErrInvalidUserName, ErrInvalidUserEmail, ErrInvalidUserAge, ErrAlreadyExists}) \<and>
   (\<forall>e. snd (UpdateUser L nowe re uide namee emaile agee) = Inl e \<longrightarrow>
      fst (UpdateUser L nowe re uide namee emaile agee) = re \<and>
      e \<in> {ErrInvalidUserName, ErrInvalidUserEmail, ErrInvalidUserAge, ErrNotFound,
            ErrAlreadyExists})"
proof (intro conjI allI impI)
  assume "snd (Create ra ua) \<noteq> None"
  then obtain e where *: "Create ra ua = (fst (Create ra ua), Some e)"
    by (cases "Create ra ua") auto
  from Create_error [OF *] have "fst (Create ra ua) = ra" "e = ErrAlreadyExists" by simp_all
  moreover from * have "snd (Create ra ua) = Some e" by (metis snd_conv)
  ultimately show "fst (Create ra ua) = ra" "snd (Create ra ua) = Some ErrAlreadyExists"
    by auto
next
  assume "snd (Update rb ub) \<noteq> None"
  then obtain e where *: "Update rb ub = (fst (Update rb ub), Some e)"
    by (cases "Update rb ub") auto
  from Update_error [OF *] have "fst (Update rb ub) = rb" "e = ErrNotFound \<or> e = ErrAlreadyExists"
    by simp_all
  moreover from * have "snd (Update rb ub) = Some e" by (metis snd_conv)
  ultimately show "fst (Update rb ub) = rb"
    "snd (Update rb ub) \<in> {Some ErrNotFound, Some ErrAlreadyExists}"
    by auto
next
  assume "snd (Delete rc uidc) \<noteq> None"
  then obtain e where *: "Delete rc uidc = (fst (Delete rc uidc), Some e)"
    by (cases "Delete rc uidc") auto
  from Delete_error [OF *] have "fst (Delete rc uidc) = rc" "e = ErrNotFound" by simp_all
  moreover from * have "snd (Delete rc uidc) = Some e" by (metis snd_conv)
  ultimately show "fst (Delete rc uidc) = rc" "snd (Delete rc uidc) = Some ErrNotFound"
    by auto
next
  fix e
  assume "snd (CreateUser L uidd nowd rd named emaild aged) = Inl e"
  then have "CreateUser L uidd nowd rd named emaild aged =
      (fst (CreateUser L uidd nowd rd named emaild aged), Inl e)"
    by (metis prod.collapse)
  from CreateUser_error [OF this]
  show "fst (CreateUser L uidd nowd rd named emaild aged) = rd"
    "e \<in> {ErrInvalidUserName, ErrInvalidUserEmail, ErrInvalidUserAge, ErrAlreadyExists}"
    by auto
next
  fix e
  assume "snd (UpdateUser L nowe re uide namee emaile agee) = Inl e"
  then have "UpdateUser L nowe re uide namee emaile agee =
      (fst (UpdateUser L nowe re uide namee emaile agee), Inl e)"
    by (metis prod.collapse)
  from UpdateUser_error [OF this]
  show "fst (UpdateUser L nowe re uide namee emaile agee) = re"
    "e \<in> {ErrInvalidUserName, ErrInvalidUserEmail, ErrInvalidUserAge, ErrNotFound,
          ErrAlreadyExists}"
    by auto
qed

theorem all_or_nothing_witness:
  "snd (Create storeA userB) \<noteq> None \<and> fst (Create storeA userB) = storeA \<and>
   snd (Update storeAC userAJ) \<noteq> None \<and> fst (Update storeAC userAJ) = storeAC \<and>
   snd (Delete storeA ''b2'') \<noteq> None \<and> fst (Delete storeA ''b2'') = storeA \<and>
   snd (CreateUser id ''b2'' 200 storeA ''Jane'' ''john@example.com'' 25) = Inl ErrAlreadyExists \<and>
   fst (CreateUser id ''b2'' 200 storeA ''Jane'' ''john@example.com'' 25) = storeA \<and>
   snd (UpdateUser id 300 storeA ''a1'' ''John Doe'' ''john@example.com'' (- 1))
     = Inl ErrInvalidUserAge \<and>
   fst (UpdateUser id 300 storeA ''a1'' ''John Doe'' ''john@example.com'' (- 1)) = storeA \<and>
   GetUser storeA ''a1'' = Inr userA \<and> Age userA = 30"
proof -
  have a: "snd (Create storeA userB) \<noteq> None" by (simp add: Create_B)
  have b: "snd (Update storeAC userAJ) \<noteq> None"
    by (simp add: Update_result storeAC_def userA_def userAJ_def)
  have c: "snd (Delete storeA ''b2'') \<noteq> None"
    by (simp add: Delete_result users_storeA)
  have d: "snd (CreateUser id ''b2'' 200 storeA ''Jane'' ''john@example.com'' 25)
      = Inl ErrAlreadyExists"
    by (simp add: CreateUser_B)
  have e: "snd (UpdateUser id 300 storeA ''a1'' ''John Doe'' ''john@example.com'' (- 1))
      = Inl ErrInvalidUserAge"
    by (simp add: UpdateUser_A_bad_age)
  have g: "GetUser storeA ''a1'' = Inr userA" "Age userA = 30"
    by (simp_all add: GetUser_def GetByID_def users_storeA userA_def)
  from all_or_nothing [where ra = storeA and ua = userB and rb = storeAC and ub = userAJ
      and rc = storeA and uidc = "''b2''" and L = id and uidd = "''b2''" and nowd = 200
      and rd = storeA and named = "''Jane''" and emaild = "''john@example.com''" and aged = 25
      and nowe = 300 and re = storeA and uide = "''a1''" and namee = "''John Doe''"
      and emaile = "''john@example.com''" and agee = "- 1"]
    a b c d e g
  show ?thesis by blast
qed

text \<open>
  C4. \<open>Validate\<close> trims the name and then fails with \<open>ErrInvalidUserName\<close> exactly when
  the trimmed name is not of the accepted shape: 2 to 50 bytes, a letter first and last,
  and letters or blanks in between. Blanks in between may follow one another. The
  trimmed name is what the call leaves in the record.
\<close>

theorem Validate_name:
  "(snd (Validate L u) = Some ErrInvalidUserName \<longleftrightarrow> \<not> validName (TrimSpace (Name u))) \<and>
   Name (fst (Validate L u)) = TrimSpace (Name u)"
  by (auto simp: Validate_def Let_def nameRegex_validName dest: validName_length)

theorem Validate_name_witness:
  "validName (TrimSpace ''  John  Doe '') \<and>
   snd (Validate id \<lparr>ID = ''a1'', Name = ''  John  Doe '', Email = ''John@Example.com'',
                      Age = 30, CreatedAt = 100, UpdatedAt = 100\<rparr>) \<noteq> Some ErrInvalidUserName \<and>
   Name (fst (Validate id \<lparr>ID = ''a1'', Name = ''  John  Doe '', Email = ''John@Example.com'',
                            Age = 30, CreatedAt = 100, UpdatedAt = 100\<rparr>)) = ''John  Doe'' \<and>
   \<not> validName (TrimSpace '' J '') \<and>
   snd (Validate id \<lparr>ID = ''a1'', Name = '' J '', Email = ''John@Example.com'',
                      Age = 30, CreatedAt = 100, UpdatedAt = 100\<rparr>) = Some ErrInvalidUserName"
proof -
  have t: "TrimSpace ''  John  Doe '' = ''John  Doe''" "TrimSpace '' J '' = ''J''"
    by code_simp+
  have v: "validName (TrimSpace ''  John  Doe '')" "\<not> validName (TrimSpace '' J '')"
    unfolding t by code_simp+
  from Validate_name [of id "\<lparr>ID = ''a1'', Name = ''  John  Doe '', Email = ''John@Example.com'',
                      Age = 30, CreatedAt = 100, UpdatedAt = 100\<rparr>"]
    Validate_name [of id "\<lparr>ID = ''a1'', Name = '' J '', Email = ''John@Example.com'',
                      Age = 30, CreatedAt = 100, UpdatedAt = 100\<rparr>"]
    v t
  show ?thesis by simp
qed

theorem Validate_name_double_space_counterexample:
  "\<not> (snd (Validate id \<lparr>ID = ''a1'', Name = ''A  B'', Email = ''john@example.com'',
                         Age = 30, CreatedAt = 100, UpdatedAt = 100\<rparr>) \<noteq> Some ErrInvalidUserName
       \<longleftrightarrow> specValidName (TrimSpace ''A  B''))"
proof -
  have "snd (Validate id \<lparr>ID = ''a1'', Name = ''A  B'', Email = ''john@example.com'',
                         Age = 30, CreatedAt = 100, UpdatedAt = 100\<rparr>) = None"
    by code_simp
  moreover have "doubleSpace (TrimSpace ''A  B'')"
    by code_simp
  ultimately show ?thesis by (simp add: specValidName_def)
qed

text \<open>
  C5. \<open>Update\<close> fails with \<open>ErrNotFound\<close> when the identifier of the record is not a key
  of the primary map. When it is, and the email of the record differs from the stored
  one, the call fails with \<open>ErrAlreadyExists\<close> exactly when the reverse index holds the
  new email under another identifier (and then changes nothing), and otherwise moves the
  index entry and replaces the record. When the email is the stored one, the call
  succeeds and replaces the record, all other entries of both maps staying as they are.
\<close>

theorem Update_outcomes:
  "(users r (ID u) = None \<longrightarrow> Update r u = (r, Some ErrNotFound)) \<and>
   (users r (ID u) = Some old \<and> Email old \<noteq> Email u \<longrightarrow>
      (snd (Update r u) = Some ErrAlreadyExists \<longleftrightarrow>
         (\<exists>i. emails r (Email u) = Some i \<and> i \<noteq> ID u)) \<and>
      (snd (Update r u) \<noteq> Some ErrAlreadyExists \<longrightarrow>
         Update r u =
           (r\<lparr>emails := ((emails r)(Email old := None))(Email u \<mapsto> ID u),
              users := (users r)(ID u \<mapsto> u)\<rparr>, None)) \<and>
      (snd (Update r u) = Some ErrAlreadyExists \<longrightarrow> fst (Update r u) = r)) \<and>
   (users r (ID u) = Some old \<and> Email old = Email u \<longrightarrow>
      Update r u = (r\<lparr>users := (users r)(ID u \<mapsto> u)\<rparr>, None))"
  by (auto simp: Update_result)

theorem Update_outcomes_witness:
  "users NewInMemoryUserRepository (ID userA) = None \<and>
   Update NewInMemoryUserRepository userA = (NewInMemoryUserRepository, Some ErrNotFound) \<and>
   users storeAC (ID userAJ) = Some userA \<and> Email userA \<noteq> Email userAJ \<and>
   emails storeAC (Email userAJ) = Some ''c3'' \<and> ''c3'' \<noteq> ID userAJ \<and>
   Update storeAC userAJ = (storeAC, Some ErrAlreadyExists) \<and>
   users storeA (ID userA2) = Some userA \<and> Email userA \<noteq> Email userA2 \<and>
   emails storeA (Email userA2) = None \<and>
   Update storeA userA2 =
     (storeA\<lparr>emails := ((emails storeA)(Email userA := None))(Email userA2 \<mapsto> ID userA2),
             users := (users storeA)(ID userA2 \<mapsto> userA2)\<rparr>, None) \<and>
   users storeA (ID userA31) = Some userA \<and> Email userA = Email userA31 \<and>
   Update storeA userA31 = (storeA\<lparr>users := (users storeA)(ID userA31 \<mapsto> userA31)\<rparr>, None)"
proof -
  have n: "users NewInMemoryUserRepository (ID userA) = None"
    by (simp add: NewInMemoryUserRepository_def)
  have c: "users storeAC (ID userAJ) = Some userA" "Email userA \<noteq> Email userAJ"
    "emails storeAC (Email userAJ) = Some ''c3''" "''c3'' \<noteq> ID userAJ"
    by (simp_all add: storeAC_def userA_def userAJ_def)
  have d: "users storeA (ID userA2) = Some userA" "Email userA \<noteq> Email userA2"
    "emails storeA (Email userA2) = None"
    by (simp_all add: storeA_def userA_def userA2_def)
  have s: "users storeA (ID userA31) = Some userA" "Email userA = Email userA31"
    by (simp_all add: storeA_def userA_def userA31_def)
  have 1: "Update NewInMemoryUserRepository userA = (NewInMemoryUserRepository, Some ErrNotFound)"
    using Update_outcomes [of NewInMemoryUserRepository userA] n by blast
  have "snd (Update storeAC userAJ) = Some ErrAlreadyExists"
    "fst (Update storeAC userAJ) = storeAC"
    using Update_outcomes [of storeAC userAJ userA] c by blast+
  then have 2: "Update storeAC userAJ = (storeAC, Some ErrAlreadyExists)"
    by (metis prod.collapse)
  have "snd (Update storeA userA2) \<noteq> Some ErrAlreadyExists"
    using Update_outcomes [of storeA userA2 userA] d by auto
  then have 3: "Update storeA userA2 =
      (storeA\<lparr>emails := ((emails storeA)(Email userA := None))(Email userA2 \<mapsto> ID userA2),
              users := (users storeA)(ID userA2 \<mapsto> userA2)\<rparr>, None)"
    using Update_outcomes [of storeA userA2 userA] d(1,2) by blast
  have 4: "Update storeA userA31 =
      (storeA\<lparr>users := (users storeA)(ID userA31 \<mapsto> userA31)\<rparr>, None)"
    using Update_outcomes [of storeA userA31 userA] s by blast
  from n c d s 1 2 3 4 show ?thesis by blast
qed

text \<open>
  C6. Round trip. When \<open>Create\<close> succeeds, \<open>GetByID\<close> on the identifier of the record
  returns a record equal to it in every field. When \<open>CreateUser\<close> succeeds, the record
  it returns carries the supplied identifier and the reading of the clock as both of its
  timestamps, and \<open>GetUser\<close> on its identifier returns a record equal to it in every
  field.
\<close>

theorem Create_roundtrip:
  "(Create r x = (r', None) \<longrightarrow> GetByID r' (ID x) = Inr x) \<and>
   (CreateUser L uid now r name email age = (r'', Inr created) \<longrightarrow>
      GetUser r'' (ID created) = Inr created \<and> ID created = uid \<and>
      CreatedAt created = now \<and> UpdatedAt created = now)"
  by (auto simp: Create_result CreateUser_def GetUser_def GetByID_def
           split: if_splits sum.splits option.splits dest: NewUser_Inr)

theorem Create_roundtrip_witness:
  "Create NewInMemoryUserRepository userA = (storeA, None) \<and>
   GetByID storeA (ID userA) = Inr userA \<and>
   CreateUser id ''a1'' 100 NewInMemoryUserRepository ''John Doe'' ''John@Example.com'' 30
     = (storeA, Inr userA) \<and>
   GetUser storeA ''a1'' = Inr userA \<and> CreatedAt userA = 100 \<and> UpdatedAt userA = 100"
proof -
  have i: "ID userA = ''a1''" by (simp add: userA_def)
  from Create_roundtrip [where r = NewInMemoryUserRepository and x = userA and r' = storeA
      and L = id and uid = "''a1''" and now = 100 and name = "''John Doe''"
      and email = "''John@Example.com''" and age = 30 and r'' = storeA and created = userA]
    Create_A CreateUser_A
  show ?thesis unfolding i by simp
qed




text \<open>
  C8. \<open>Delete\<close> is not idempotent. When the identifier is a key of the primary map the
  call succeeds, and the same call on the store it leaves fails with \<open>ErrNotFound\<close> and
  changes nothing; when the identifier is not a key, the call fails with \<open>ErrNotFound\<close>
  and changes nothing.
\<close>

theorem Delete_not_idempotent:
  "(\<forall>u. users r uid = Some u \<longrightarrow>
      snd (Delete r uid) = None \<and>
      Delete (fst (Delete r uid)) uid = (fst (Delete r uid), Some ErrNotFound)) \<and>
   (users r uid = None \<longrightarrow> Delete r uid = (r, Some ErrNotFound))"
  by (auto simp: Delete_result)

theorem Delete_not_idempotent_witness:
  "users storeA ''a1'' = Some userA \<and>
   Delete storeA ''a1'' = (NewInMemoryUserRepository, None) \<and>
   Delete NewInMemoryUserRepository ''a1'' = (NewInMemoryUserRepository, Some ErrNotFound) \<and>
   users storeA ''b2'' = None \<and>
   Delete storeA ''b2'' = (storeA, Some ErrNotFound)"
  using Delete_not_idempotent [of storeA "''a1''"] Delete_not_idempotent [of storeA "''b2''"]
    users_storeA Delete_A
  by simp

text \<open>
  C9. A deleted record frees its email. When the identifier is a key of the primary map
  with a record of email \<open>e\<close>, \<open>Delete\<close> succeeds and leaves a store whose reverse index
  has no entry for \<open>e\<close>; on that store the creation of any record with the email \<open>e\<close>
  and an identifier that is not a key of the primary map succeeds, and so does
  \<open>CreateUser\<close> for valid data whose email has the normal form \<open>e\<close>.
\<close>

theorem Delete_frees_email:
  assumes "users r uid = Some u" and "Delete r uid = (ra, ea)"
    and "users ra (ID x) = None" and "Email x = Email u"
  shows "ea = None \<and> emails ra (Email u) = None \<and>
         Create ra x =
           (ra\<lparr>users := (users ra)(ID x \<mapsto> x), emails := (emails ra)(Email x \<mapsto> ID x)\<rparr>,
            None) \<and>
         (\<forall>L now name email age.
            NewUser L now (ID x) name email age = Inr x \<longrightarrow>
            snd (CreateUser L (ID x) now ra name email age) = Inr x)"
proof -
  from assms have 1: "ea = None" "emails ra (Email u) = None"
    by (auto simp: Delete_result)
  with assms have 2: "Create ra x =
      (ra\<lparr>users := (users ra)(ID x \<mapsto> x), emails := (emails ra)(Email x \<mapsto> ID x)\<rparr>, None)"
    by (simp add: Create_result)
  then have "snd (CreateUser L (ID x) now ra name email age) = Inr x"
    if "NewUser L now (ID x) name email age = Inr x" for L now name email age
    using that by (simp add: CreateUser_def)
  with 1 2 show ?thesis by blast
qed

theorem Delete_frees_email_witness:
  "users storeA ''a1'' = Some userA \<and>
   Delete storeA ''a1'' = (NewInMemoryUserRepository, None) \<and>
   users NewInMemoryUserRepository (ID userB) = None \<and> Email userB = Email userA \<and>
   snd (Create NewInMemoryUserRepository userB) = None \<and>
   NewUser id 200 ''b2'' ''Jane'' ''john@example.com'' 25 = Inr userB \<and>
   snd (CreateUser id ''b2'' 200 NewInMemoryUserRepository ''Jane'' ''john@example.com'' 25)
     = Inr userB"
proof -
  have h: "users NewInMemoryUserRepository (ID userB) = None" "Email userB = Email userA"
    "ID userB = ''b2''"
    by (simp_all add: NewInMemoryUserRepository_def userA_def userB_def)
  from Delete_frees_email [OF users_storeA(1) Delete_A h(1,2)] NewUser_B h(3)
  have "snd (Create NewInMemoryUserRepository userB) = None"
    "snd (CreateUser id ''b2'' 200 NewInMemoryUserRepository ''Jane'' ''john@example.com'' 25)
       = Inr userB"
    by auto
  with users_storeA(1) Delete_A h(1,2) NewUser_B show ?thesis by simp
qed

text \<open>
  C10. In every store reached from the empty one by the public operations of the
  repository, \<open>GetByEmail\<close> does not dereference nil: when the email is not indexed it
  returns \<open>ErrNotFound\<close>, and when it is indexed under an identifier it returns a copy of
  the record stored under that identifier, whose email is the one asked for.
\<close>

theorem GetByEmail_never_panics:
  assumes "reachable r"
  shows "GetByEmail r e \<noteq> Inl NilDereference \<and>
         (emails r e = None \<longrightarrow> GetByEmail r e = Inl ErrNotFound) \<and>
         (\<forall>uid. emails r e = Some uid \<longrightarrow>
            (\<exists>u. users r uid = Some u \<and> Email u = e \<and> GetByEmail r e = Inr u))"
proof (cases "emails r e")
  case None
  then show ?thesis by (simp add: GetByEmail_def)
next
  case (Some uid)
  from assms have "consistent r" by (rule reachable_consistent)
  from consistentD2 [OF this Some] obtain u where "users r uid = Some u" "Email u = e"
    by blast
  with Some show ?thesis by (simp add: GetByEmail_def)
qed

theorem GetByEmail_never_panics_witness:
  "reachable storeA \<and>
   emails storeA ''john@example.com'' = Some ''a1'' \<and>
   GetByEmail storeA ''john@example.com'' = Inr userA \<and>
   emails storeA ''jane@example.com'' = None \<and>
   GetByEmail storeA ''jane@example.com'' = Inl ErrNotFound"
proof -
  have n: "emails storeA ''jane@example.com'' = None" by (simp add: storeA_def)
  from GetByEmail_never_panics [OF reachable_storeA, of "''john@example.com''"]
    emails_storeA users_storeA(1)
  have 1: "GetByEmail storeA ''john@example.com'' = Inr userA" by auto
  from GetByEmail_never_panics [OF reachable_storeA, of "''jane@example.com''"] n
  have 2: "GetByEmail storeA ''jane@example.com'' = Inl ErrNotFound" by blast
  from reachable_storeA emails_storeA n 1 2 show ?thesis by blast
qed

end
